theory Spec2Isabelle
  imports Main
begin

section \<open>JavaScript values needed by the SDK core\<close>

text \<open>
  The SDK is TypeScript. Three features of the language matter for what follows and are
  written out instead of being hidden behind HOL's total functions:
  \<^item> an object reference may be \<open>undefined\<close>, \<open>null\<close> or an object;
  \<^item> \<open>obj[key]\<close> on an object literal finds the literal's own properties and, failing
    that, the properties every object inherits from \<open>Object.prototype\<close>;
  \<^item> \<open>a || b\<close> yields \<open>a\<close> when \<open>a\<close> is truthy and \<open>b\<close> otherwise.
\<close>

datatype 'a js_ref = Undefined | Null | Obj 'a

datatype js_value = JNum int | JStr string | JInherited string

text \<open>The property names an object literal inherits from \<open>Object.prototype\<close>.\<close>

definition object_prototype_props :: "string list" where
  "object_prototype_props =
     [''constructor'', ''__defineGetter__'', ''__defineSetter__'', ''hasOwnProperty'',
      ''__lookupGetter__'', ''__lookupSetter__'', ''isPrototypeOf'',
      ''propertyIsEnumerable'', ''toString'', ''valueOf'', ''__proto__'',
      ''toLocaleString'']"

text \<open>\<open>literal[key]\<close>: \<open>None\<close> is JavaScript's \<open>undefined\<close>.\<close>

definition js_member :: "(string \<times> js_value) list \<Rightarrow> string \<Rightarrow> js_value option" where
  "js_member own k =
     (case map_of own k of
        Some v \<Rightarrow> Some v
      | None \<Rightarrow> if k \<in> set object_prototype_props then Some (JInherited k) else None)"

fun truthy :: "js_value \<Rightarrow> bool" where
  "truthy (JNum n) = (n \<noteq> 0)"
| "truthy (JStr s) = (s \<noteq> [])"
| "truthy (JInherited k) = True"

text \<open>\<open>a || b\<close> where \<open>a\<close> is the result of a property read.\<close>

definition js_or :: "js_value option \<Rightarrow> js_value \<Rightarrow> js_value" where
  "js_or a b = (case a of Some v \<Rightarrow> if truthy v then v else b | None \<Rightarrow> b)"

text \<open>
  Every failure raised by the source itself is \<open>throw new Error(message)\<close>. The backend
  and the signer may throw anything: an error object of another class, or a value that
  is not an error object at all. A caught error is wrapped by interpolating it into a
  new message (\<open>`... ${error}`\<close>), which renders an error object as its name, a colon and
  its message, as the name alone when the message is empty, as the message alone when
  the name is empty, and a thrown string as itself.
\<close>

datatype js_error = Error string | NamedError string string | Thrown string

fun error_toString :: "js_error \<Rightarrow> string" where
  "error_toString (Error m) = (if m = [] then ''Error'' else ''Error: '' @ m)"
| "error_toString (NamedError n m) =
     (if n = [] then m else if m = [] then n else n @ '': '' @ m)"
| "error_toString (Thrown s) = s"

section \<open>Data model (types.ts)\<close>

datatype provider = Provider nat
datatype signer = Signer nat
datatype fhevm_instance = Instance nat

record FhevmConfig =
  cfg_provider :: provider
  cfg_signer :: "signer option"
  cfg_network :: "string option"
  cfg_gatewayUrl :: "string option"
  cfg_aclAddress :: "string option"

record EncryptedInput =
  handles :: "string list"
  inputProof :: string

record DecryptionRequest =
  contractAddress :: string
  userAddress :: string
  handle :: int

record FhevmClientState =
  st_isInitialized :: bool
  st_network :: string
  st_userAddress :: "string option"
  st_hasKeys :: bool

datatype contract_ref = ContractAddress string | ContractObject string

record EncryptOptions =
  opt_contract :: contract_ref
  opt_userAddress :: string

record DecryptionResult =
  res_value :: int
  res_timestamp :: nat

section \<open>Client and service state (client.ts, encryption.ts, decryption.ts)\<close>

record EncryptionService =
  enc_instance :: "fhevm_instance js_ref"
  enc_initialized :: bool

record DecryptionService =
  dec_initialized :: bool

record FhevmClient =
  c_provider :: provider
  c_signer :: "signer option"
  c_network :: string
  c_gatewayUrl :: "string option"
  c_aclAddress :: "string option"
  c_isInitialized :: bool
  encryption :: EncryptionService
  decryption :: DecryptionService

text \<open>
  The constructor. \<open>config.network || 'localhost'\<close> replaces both an absent network and
  the empty string. The field \<open>instance\<close> of the encryption service has no initialiser,
  so it starts as \<open>undefined\<close>.
\<close>

definition new_FhevmClient :: "FhevmConfig \<Rightarrow> FhevmClient" where
  "new_FhevmClient config =
     \<lparr> c_provider = cfg_provider config,
       c_signer = cfg_signer config,
       c_network = (case cfg_network config of
                      None \<Rightarrow> ''localhost''
                    | Some n \<Rightarrow> if n = [] then ''localhost'' else n),
       c_gatewayUrl = cfg_gatewayUrl config,
       c_aclAddress = cfg_aclAddress config,
       c_isInitialized = False,
       encryption = \<lparr> enc_instance = Undefined, enc_initialized = False \<rparr>,
       decryption = \<lparr> dec_initialized = False \<rparr> \<rparr>"

definition getSigner :: "FhevmClient \<Rightarrow> signer option" where
  "getSigner c = c_signer c"

definition getNetwork :: "FhevmClient \<Rightarrow> string" where
  "getNetwork c = c_network c"

definition getGatewayUrl :: "FhevmClient \<Rightarrow> string option" where
  "getGatewayUrl c = c_gatewayUrl c"

definition getAclAddress :: "FhevmClient \<Rightarrow> string option" where
  "getAclAddress c = c_aclAddress c"

subsection \<open>The two private network tables\<close>

definition EncryptionService_getChainId :: "string \<Rightarrow> js_value" where
  "EncryptionService_getChainId network =
     js_or (js_member [(''localhost'', JNum 31337), (''sepolia'', JNum 11155111),
                       (''mainnet'', JNum 1)] network)
           (JNum 31337)"

definition EncryptionService_getNetworkUrl :: "string \<Rightarrow> js_value" where
  "EncryptionService_getNetworkUrl network =
     js_or (js_member [(''localhost'', JStr ''http://127.0.0.1:8545''),
                       (''sepolia'', JStr ''https://sepolia.infura.io/v3/''),
                       (''mainnet'', JStr ''https://mainnet.infura.io/v3/'')] network)
           (JStr ''http://127.0.0.1:8545'')"

definition DecryptionService_getChainId :: "string \<Rightarrow> js_value" where
  "DecryptionService_getChainId network =
     js_or (js_member [(''localhost'', JNum 31337), (''sepolia'', JNum 11155111),
                       (''mainnet'', JNum 1)] network)
           (JNum 31337)"

definition DecryptionService_getNetworkUrl :: "string \<Rightarrow> js_value" where
  "DecryptionService_getNetworkUrl network =
     js_or (js_member [(''localhost'', JStr ''http://127.0.0.1:8545''),
                       (''sepolia'', JStr ''https://sepolia.infura.io/v3/''),
                       (''mainnet'', JStr ''https://mainnet.infura.io/v3/'')] network)
           (JStr ''http://127.0.0.1:8545'')"

subsection \<open>Reading the state\<close>

text \<open>\<open>this.initialized && this.instance !== null\<close>: \<open>undefined\<close> is not \<open>null\<close>.\<close>

definition hasKeys :: "EncryptionService \<Rightarrow> bool" where
  "hasKeys e = (enc_initialized e \<and> (case enc_instance e of Null \<Rightarrow> False | _ \<Rightarrow> True))"

definition getState :: "FhevmClient \<Rightarrow> FhevmClientState" where
  "getState c =
     \<lparr> st_isInitialized = c_isInitialized c,
       st_network = c_network c,
       st_userAddress = (case c_signer c of Some _ \<Rightarrow> None | None \<Rightarrow> None),
       st_hasKeys = hasKeys (encryption c) \<rparr>"

section \<open>External collaborators\<close>

text \<open>
  The FHE backend (the \<open>fhevmjs\<close> module), the wallet signer and the clock are outside
  the repository. They are a parameter of every operation: a record of the answers the
  outside world gives, each either a thrown error or a value. Every call that crosses
  this boundary is also written to a trace of events, so that "before the backend is
  invoked" is a statement about the trace.
\<close>

record instance_config =
  ic_chainId :: js_value
  ic_networkUrl :: js_value
  ic_gatewayUrl :: "string option"
  ic_aclAddress :: "string option"

datatype add_kind = Add8 | Add16 | Add32 | Add64 | AddBool

datatype plain = PNum int | PBool bool

text \<open>
  The encrypted-input session object returned by the backend: the pair it is bound to
  and the values added so far, in insertion order.
\<close>

record input_session =
  in_contract :: string
  in_user :: string
  in_values :: "(add_kind \<times> plain) list"

record eip712 =
  eip_domain :: string
  eip_Reencrypt :: string
  eip_message :: string

record backend =
  fhevmjs_import :: "js_error option"
  fhevmjs_createInstance :: "instance_config \<Rightarrow> js_error + fhevm_instance"
  instance_createEncryptedInput :: "fhevm_instance \<Rightarrow> string \<Rightarrow> string \<Rightarrow> js_error option"
  input_add :: "add_kind \<Rightarrow> plain \<Rightarrow> input_session \<Rightarrow> js_error option"
  input_encrypt :: "input_session \<Rightarrow> js_error + EncryptedInput"
  instance_createEIP712 :: "fhevm_instance \<Rightarrow> string \<Rightarrow> string \<Rightarrow> js_error + eip712"
  signer_signTypedData :: "signer \<Rightarrow> string \<Rightarrow> string \<Rightarrow> string \<Rightarrow> js_error + string"
  instance_reencrypt ::
    "fhevm_instance \<Rightarrow> int \<Rightarrow> string \<Rightarrow> string \<Rightarrow> string \<Rightarrow> js_error + int"

datatype event =
    EvImport
  | EvCreateInstance instance_config
  | EvCreateEncryptedInput fhevm_instance string string
  | EvAdd add_kind plain
  | EvEncrypt input_session
  | EvCreateEIP712 fhevm_instance string string
  | EvSignTypedData signer eip712
  | EvReencrypt fhevm_instance int string string string

fun is_construction :: "event \<Rightarrow> bool" where
  "is_construction (EvCreateInstance cfg) = True"
| "is_construction ev = False"

definition constructions :: "event list \<Rightarrow> nat" where
  "constructions tr = length (filter is_construction tr)"

section \<open>EncryptionService (encryption.ts)\<close>

definition EncryptionService_config :: "FhevmClient \<Rightarrow> instance_config" where
  "EncryptionService_config c =
     (let network = getNetwork c;
          chainId = EncryptionService_getChainId network
      in \<lparr> ic_chainId = chainId,
           ic_networkUrl = EncryptionService_getNetworkUrl network,
           ic_gatewayUrl = getGatewayUrl c,
           ic_aclAddress = getAclAddress c \<rparr>)"

text \<open>
  \<open>EncryptionService.initialize\<close>, run to completion: the result, the client afterwards
  and the external calls made.
\<close>

definition EncryptionService_initialize ::
  "backend \<Rightarrow> FhevmClient \<Rightarrow> (js_error + unit) \<times> FhevmClient \<times> event list" where
  "EncryptionService_initialize be c =
     (if enc_initialized (encryption c) then (Inr (), c, [])
      else
        (case fhevmjs_import be of
           Some e \<Rightarrow>
             (Inl (Error (''Failed to initialize encryption service: '' @ error_toString e)),
              c, [EvImport])
         | None \<Rightarrow>
             (let cfg = EncryptionService_config c in
              case fhevmjs_createInstance be cfg of
                Inl e \<Rightarrow>
                  (Inl (Error (''Failed to initialize encryption service: '' @ error_toString e)),
                   c, [EvImport, EvCreateInstance cfg])
              | Inr i \<Rightarrow>
                  (Inr (),
                   c\<lparr>encryption := \<lparr> enc_instance = Obj i, enc_initialized = True \<rparr>\<rparr>,
                   [EvImport, EvCreateInstance cfg]))))"

definition EncryptionService_createEncryptedInput ::
  "backend \<Rightarrow> EncryptionService \<Rightarrow> string \<Rightarrow> string \<Rightarrow> (js_error + input_session) \<times> event list" where
  "EncryptionService_createEncryptedInput be e contract user =
     (case (enc_initialized e, enc_instance e) of
        (True, Obj i) \<Rightarrow>
          (case instance_createEncryptedInput be i contract user of
             Some err \<Rightarrow> (Inl err, [EvCreateEncryptedInput i contract user])
           | None \<Rightarrow>
               (Inr \<lparr> in_contract = contract, in_user = user, in_values = [] \<rparr>,
                [EvCreateEncryptedInput i contract user]))
      | _ \<Rightarrow> (Inl (Error ''Encryption service not initialized''), []))"

text \<open>
  The five typed encrypt methods have one body, differing only in the \<open>add\<close> method they
  call on the session: resolve the contract address (the string itself, or the
  \<open>target\<close> of a contract object), open a session, add the value, seal the session.
\<close>

definition resolve_contract :: "contract_ref \<Rightarrow> string" where
  "resolve_contract r = (case r of ContractAddress a \<Rightarrow> a | ContractObject target \<Rightarrow> target)"

definition encrypt_single ::
  "backend \<Rightarrow> EncryptionService \<Rightarrow> add_kind \<Rightarrow> plain \<Rightarrow> EncryptOptions \<Rightarrow>
     (js_error + EncryptedInput) \<times> event list" where
  "encrypt_single be e k v options =
     (let contractAddress = resolve_contract (opt_contract options)
      in case EncryptionService_createEncryptedInput be e contractAddress (opt_userAddress options) of
           (Inl err, tr) \<Rightarrow> (Inl err, tr)
         | (Inr input, tr) \<Rightarrow>
             (case input_add be k v input of
                Some err \<Rightarrow> (Inl err, tr @ [EvAdd k v])
              | None \<Rightarrow>
                  (let sealed = input\<lparr>in_values := in_values input @ [(k, v)]\<rparr>
                   in (input_encrypt be sealed, tr @ [EvAdd k v, EvEncrypt sealed]))))"

definition encryptU8 ::
  "backend \<Rightarrow> EncryptionService \<Rightarrow> int \<Rightarrow> EncryptOptions \<Rightarrow> (js_error + EncryptedInput) \<times> event list" where
  "encryptU8 be e v options = encrypt_single be e Add8 (PNum v) options"

definition encryptU16 ::
  "backend \<Rightarrow> EncryptionService \<Rightarrow> int \<Rightarrow> EncryptOptions \<Rightarrow> (js_error + EncryptedInput) \<times> event list" where
  "encryptU16 be e v options = encrypt_single be e Add16 (PNum v) options"

definition encryptU32 ::
  "backend \<Rightarrow> EncryptionService \<Rightarrow> int \<Rightarrow> EncryptOptions \<Rightarrow> (js_error + EncryptedInput) \<times> event list" where
  "encryptU32 be e v options = encrypt_single be e Add32 (PNum v) options"

definition encryptU64 ::
  "backend \<Rightarrow> EncryptionService \<Rightarrow> int \<Rightarrow> EncryptOptions \<Rightarrow> (js_error + EncryptedInput) \<times> event list" where
  "encryptU64 be e v options = encrypt_single be e Add64 (PNum v) options"

definition encryptBool ::
  "backend \<Rightarrow> EncryptionService \<Rightarrow> bool \<Rightarrow> EncryptOptions \<Rightarrow> (js_error + EncryptedInput) \<times> event list" where
  "encryptBool be e v options = encrypt_single be e AddBool (PBool v) options"

definition EncryptionService_dispose :: "EncryptionService \<Rightarrow> EncryptionService" where
  "EncryptionService_dispose e = e\<lparr>enc_instance := Null, enc_initialized := False\<rparr>"

section \<open>DecryptionService (decryption.ts)\<close>

definition DecryptionService_initialize :: "DecryptionService \<Rightarrow> DecryptionService" where
  "DecryptionService_initialize d =
     (if dec_initialized d then d else d\<lparr>dec_initialized := True\<rparr>)"

definition DecryptionService_dispose :: "DecryptionService \<Rightarrow> DecryptionService" where
  "DecryptionService_dispose d = d\<lparr>dec_initialized := False\<rparr>"

definition DecryptionService_config :: "FhevmClient \<Rightarrow> instance_config" where
  "DecryptionService_config c =
     \<lparr> ic_chainId = DecryptionService_getChainId (getNetwork c),
       ic_networkUrl = DecryptionService_getNetworkUrl (getNetwork c),
       ic_gatewayUrl = getGatewayUrl c,
       ic_aclAddress = getAclAddress c \<rparr>"

text \<open>The \<open>try\<close> block of \<open>userDecrypt\<close>; \<open>now\<close> is what \<open>Date.now()\<close> reads.\<close>

definition userDecrypt_try ::
  "backend \<Rightarrow> FhevmClient \<Rightarrow> signer \<Rightarrow> nat \<Rightarrow> DecryptionRequest \<Rightarrow>
     (js_error + DecryptionResult) \<times> event list" where
  "userDecrypt_try be c sg now request =
     (case fhevmjs_import be of
        Some e \<Rightarrow> (Inl e, [EvImport])
      | None \<Rightarrow>
         (let cfg = DecryptionService_config c;
              ca = contractAddress request;
              ua = userAddress request
          in case fhevmjs_createInstance be cfg of
               Inl e \<Rightarrow> (Inl e, [EvImport, EvCreateInstance cfg])
             | Inr inst \<Rightarrow>
                (case instance_createEIP712 be inst ca ua of
                   Inl e \<Rightarrow> (Inl e, [EvImport, EvCreateInstance cfg, EvCreateEIP712 inst ca ua])
                 | Inr eip \<Rightarrow>
                    (case signer_signTypedData be sg (eip_domain eip) (eip_Reencrypt eip)
                            (eip_message eip) of
                       Inl e \<Rightarrow>
                         (Inl e, [EvImport, EvCreateInstance cfg, EvCreateEIP712 inst ca ua,
                                  EvSignTypedData sg eip])
                     | Inr signature \<Rightarrow>
                        (case instance_reencrypt be inst (handle request) ca ua signature of
                           Inl e \<Rightarrow>
                             (Inl e, [EvImport, EvCreateInstance cfg, EvCreateEIP712 inst ca ua,
                                      EvSignTypedData sg eip,
                                      EvReencrypt inst (handle request) ca ua signature])
                         | Inr decryptedValue \<Rightarrow>
                             (Inr \<lparr> res_value = decryptedValue, res_timestamp = now \<rparr>,
                              [EvImport, EvCreateInstance cfg, EvCreateEIP712 inst ca ua,
                               EvSignTypedData sg eip,
                               EvReencrypt inst (handle request) ca ua signature]))))))"

definition userDecrypt ::
  "backend \<Rightarrow> FhevmClient \<Rightarrow> nat \<Rightarrow> DecryptionRequest \<Rightarrow>
     (js_error + DecryptionResult) \<times> event list" where
  "userDecrypt be c now request =
     (if \<not> dec_initialized (decryption c)
      then (Inl (Error ''Decryption service not initialized''), [])
      else
        (case getSigner c of
           None \<Rightarrow> (Inl (Error ''Signer required for user decryption''), [])
         | Some sg \<Rightarrow>
            (case userDecrypt_try be c sg now request of
               (Inl e, tr) \<Rightarrow> (Inl (Error (''Failed to decrypt value: '' @ error_toString e)), tr)
             | (Inr r, tr) \<Rightarrow> (Inr r, tr))))"

subsection \<open>Promise.all and the batch operation\<close>

text \<open>
  \<open>Promise.all\<close> is given the outcome each input promise will settle with and the order
  in which the promises settle. It keeps an array of values with one slot per input and
  a count of inputs not yet fulfilled. A fulfilment stores its value in the slot of its
  own index; the combined promise fulfils when the count reaches zero. The first
  rejection rejects the combined promise. An entry of the order that names no pending
  input is skipped. \<open>None\<close> means that the combined promise is still pending when the
  order is exhausted.
\<close>

fun settle_all ::
  "(js_error + 'a) list \<Rightarrow> nat list \<Rightarrow> 'a option list \<Rightarrow> nat \<Rightarrow> (js_error + 'a list) option" where
  "settle_all outs [] vals remaining = None"
| "settle_all outs (i # order) vals remaining =
     (if i < length outs \<and> vals ! i = None then
        (case outs ! i of
           Inl e \<Rightarrow> Some (Inl e)
         | Inr v \<Rightarrow>
            (if remaining - 1 = 0 then Some (Inr (map the (vals[i := Some v])))
             else settle_all outs order (vals[i := Some v]) (remaining - 1)))
      else settle_all outs order vals remaining)"

definition Promise_all :: "(js_error + 'a) list \<Rightarrow> nat list \<Rightarrow> (js_error + 'a list) option" where
  "Promise_all outs order =
     (if outs = [] then Some (Inr [])
      else settle_all outs order (replicate (length outs) None) (length outs))"

text \<open>
  \<open>batchUserDecrypt\<close>: \<open>clock i\<close> is the reading of \<open>Date.now()\<close> made by the call for the
  request at index \<open>i\<close>, \<open>order\<close> the order in which the calls complete.
\<close>

definition batch_outcomes ::
  "backend \<Rightarrow> FhevmClient \<Rightarrow> (nat \<Rightarrow> nat) \<Rightarrow> DecryptionRequest list \<Rightarrow>
     (js_error + DecryptionResult) list" where
  "batch_outcomes be c clock requests =
     map (\<lambda>(i, request). fst (userDecrypt be c (clock i) request)) (enumerate 0 requests)"

definition batchUserDecrypt ::
  "backend \<Rightarrow> FhevmClient \<Rightarrow> (nat \<Rightarrow> nat) \<Rightarrow> nat list \<Rightarrow> DecryptionRequest list \<Rightarrow>
     (js_error + DecryptionResult list) option" where
  "batchUserDecrypt be c clock order requests =
     Promise_all (batch_outcomes be c clock requests) order"

section \<open>FhevmClient (client.ts)\<close>

text \<open>\<open>FhevmClient.initialize\<close>, run to completion without interference.\<close>

definition FhevmClient_initialize ::
  "backend \<Rightarrow> FhevmClient \<Rightarrow> (js_error + unit) \<times> FhevmClient \<times> event list" where
  "FhevmClient_initialize be c =
     (if c_isInitialized c then (Inr (), c, [])
      else
        (case EncryptionService_initialize be c of
           (Inl e, c1, tr) \<Rightarrow>
             (Inl (Error (''Failed to initialize FHEVM client: '' @ error_toString e)), c1, tr)
         | (Inr u, c1, tr) \<Rightarrow>
             (Inr (),
              c1\<lparr>decryption := DecryptionService_initialize (decryption c1),
                 c_isInitialized := True\<rparr>,
              tr)))"

definition FhevmClient_dispose :: "FhevmClient \<Rightarrow> FhevmClient" where
  "FhevmClient_dispose c =
     c\<lparr>encryption := EncryptionService_dispose (encryption c),
       decryption := DecryptionService_dispose (decryption c),
       c_isInitialized := False\<rparr>"

subsection \<open>Interleaved invocations of initialize\<close>

text \<open>
  JavaScript runs an \<open>async\<close> function without interruption up to its next \<open>await\<close>; other
  code may run between two such segments. One invocation of \<open>FhevmClient.initialize\<close> is
  therefore a coroutine whose control point is one of the places where it can be suspended:
  \<^item> \<open>Start\<close>: not yet invoked;
  \<^item> \<open>AwaitImport\<close>: inside \<open>EncryptionService.initialize\<close>, at \<open>await import('fhevmjs')\<close>;
  \<^item> \<open>AwaitCreateInstance r\<close>: at \<open>await createInstance(...)\<close>, which will settle with \<open>r\<close>;
  \<^item> \<open>AwaitEncryption r\<close>: at \<open>await this.encryption.initialize()\<close>, settled with \<open>r\<close>;
  \<^item> \<open>AwaitDecryption\<close>: at \<open>await this.decryption.initialize()\<close>;
  \<^item> \<open>Finished r\<close>: the promise returned by \<open>initialize\<close> has settled with \<open>r\<close>.
  \<open>init_resume\<close> runs one segment on the shared client.
\<close>

datatype init_pc =
    Start
  | AwaitImport
  | AwaitCreateInstance "js_error + fhevm_instance"
  | AwaitEncryption "js_error + unit"
  | AwaitDecryption
  | Finished "js_error + unit"

fun init_resume :: "backend \<Rightarrow> init_pc \<Rightarrow> FhevmClient \<Rightarrow> init_pc \<times> FhevmClient \<times> event list" where
  "init_resume be Start c =
     (if c_isInitialized c then (Finished (Inr ()), c, [])
      else if enc_initialized (encryption c) then (AwaitEncryption (Inr ()), c, [])
      else (AwaitImport, c, [EvImport]))"
| "init_resume be AwaitImport c =
     (case fhevmjs_import be of
        Some e \<Rightarrow>
          (AwaitEncryption
             (Inl (Error (''Failed to initialize encryption service: '' @ error_toString e))),
           c, [])
      | None \<Rightarrow>
          (let cfg = EncryptionService_config c
           in (AwaitCreateInstance (fhevmjs_createInstance be cfg), c, [EvCreateInstance cfg])))"
| "init_resume be (AwaitCreateInstance r) c =
     (case r of
        Inl e \<Rightarrow>
          (AwaitEncryption
             (Inl (Error (''Failed to initialize encryption service: '' @ error_toString e))),
           c, [])
      | Inr i \<Rightarrow>
          (AwaitEncryption (Inr ()),
           c\<lparr>encryption := \<lparr> enc_instance = Obj i, enc_initialized = True \<rparr>\<rparr>, []))"
| "init_resume be (AwaitEncryption r) c =
     (case r of
        Inl e \<Rightarrow>
          (Finished (Inl (Error (''Failed to initialize FHEVM client: '' @ error_toString e))),
           c, [])
      | Inr u \<Rightarrow>
          (AwaitDecryption, c\<lparr>decryption := DecryptionService_initialize (decryption c)\<rparr>, []))"
| "init_resume be AwaitDecryption c = (Finished (Inr ()), c\<lparr>c_isInitialized := True\<rparr>, [])"
| "init_resume be (Finished r) c = (Finished r, c, [])"

text \<open>
  Two invocations on one client. A schedule names, segment by segment, the invocation
  that runs next; the system collects the external calls of both, each tagged with the
  invocation that made it.
\<close>

datatype invocation = First | Second

record system =
  sys_client :: FhevmClient
  sys_first :: init_pc
  sys_second :: init_pc
  sys_trace :: "(invocation \<times> event) list"

definition sys_init :: "FhevmClient \<Rightarrow> system" where
  "sys_init c = \<lparr> sys_client = c, sys_first = Start, sys_second = Start, sys_trace = [] \<rparr>"

fun pc_of :: "system \<Rightarrow> invocation \<Rightarrow> init_pc" where
  "pc_of s First = sys_first s"
| "pc_of s Second = sys_second s"

fun sys_step :: "backend \<Rightarrow> system \<Rightarrow> invocation \<Rightarrow> system" where
  "sys_step be s First =
     (case init_resume be (sys_first s) (sys_client s) of
        (pc, c, tr) \<Rightarrow>
          s\<lparr>sys_client := c, sys_first := pc, sys_trace := sys_trace s @ map (Pair First) tr\<rparr>)"
| "sys_step be s Second =
     (case init_resume be (sys_second s) (sys_client s) of
        (pc, c, tr) \<Rightarrow>
          s\<lparr>sys_client := c, sys_second := pc, sys_trace := sys_trace s @ map (Pair Second) tr\<rparr>)"

fun run :: "backend \<Rightarrow> invocation list \<Rightarrow> system \<Rightarrow> system" where
  "run be [] s = s"
| "run be (t # sched) s = run be sched (sys_step be s t)"

text \<open>The external calls one invocation made, and the backend constructions of a run.\<close>

definition calls_of :: "invocation \<Rightarrow> system \<Rightarrow> event list" where
  "calls_of t s = map snd (filter (\<lambda>p. fst p = t) (sys_trace s))"

definition sys_constructions :: "system \<Rightarrow> nat" where
  "sys_constructions s = constructions (map snd (sys_trace s))"

section \<open>A concrete outside world\<close>

text \<open>
  A backend that loads, constructs instance 7, accepts every value it is given, signs
  every message and decrypts every handle except negative ones; used to evaluate the
  operations at concrete inputs.
\<close>

definition plain_backend :: backend where
  "plain_backend =
     \<lparr> fhevmjs_import = None,
       fhevmjs_createInstance = (\<lambda>cfg. Inr (Instance 7)),
       instance_createEncryptedInput = (\<lambda>i contract user. None),
       input_add = (\<lambda>k v input. None),
       input_encrypt =
         (\<lambda>input. Inr \<lparr> handles = map (\<lambda>kv. ''0xhandle'') (in_values input),
                         inputProof = ''0xproof'' \<rparr>),
       instance_createEIP712 =
         (\<lambda>i contract user.
            Inr \<lparr> eip_domain = ''domain'', eip_Reencrypt = ''Reencrypt'',
                  eip_message = contract @ user \<rparr>),
       signer_signTypedData = (\<lambda>sg domain types message. Inr ''0xsignature''),
       instance_reencrypt =
         (\<lambda>i h contract user signature.
            if h < 0 then Inl (Error ''permission denied'') else Inr (h + 1)) \<rparr>"

definition plain_config :: FhevmConfig where
  "plain_config =
     \<lparr> cfg_provider = Provider 0, cfg_signer = None, cfg_network = None,
       cfg_gatewayUrl = None, cfg_aclAddress = None \<rparr>"

definition signer_config :: FhevmConfig where
  "signer_config = plain_config\<lparr>cfg_signer := Some (Signer 1)\<rparr>"

definition ready_client :: "FhevmConfig \<Rightarrow> FhevmClient" where
  "ready_client config =
     (case FhevmClient_initialize plain_backend (new_FhevmClient config) of (r, c, tr) \<Rightarrow> c)"

definition plain_options :: EncryptOptions where
  "plain_options = \<lparr> opt_contract = ContractAddress ''0xC'', opt_userAddress = ''0xU'' \<rparr>"

definition request_of :: "int \<Rightarrow> DecryptionRequest" where
  "request_of h = \<lparr> contractAddress = ''0xC'', userAddress = ''0xU'', handle = h \<rparr>"

section \<open>Network resolution\<close>

lemma network_resolution_known:
  "EncryptionService_getChainId ''localhost'' = JNum 31337"
  "EncryptionService_getChainId ''sepolia'' = JNum 11155111"
  "EncryptionService_getChainId ''mainnet'' = JNum 1"
  "EncryptionService_getNetworkUrl ''localhost'' = JStr ''http://127.0.0.1:8545''"
  "EncryptionService_getNetworkUrl ''sepolia'' = JStr ''https://sepolia.infura.io/v3/''"
  "EncryptionService_getNetworkUrl ''mainnet'' = JStr ''https://mainnet.infura.io/v3/''"
  by (simp_all add: EncryptionService_getChainId_def EncryptionService_getNetworkUrl_def
      js_member_def js_or_def)

text \<open>
  The fallback is taken for every name that is neither in the table nor inherited from
  \<open>Object.prototype\<close>.
\<close>

lemma network_resolution_fallback:
  assumes "network \<notin> {''localhost'', ''sepolia'', ''mainnet''}"
    and "network \<notin> set object_prototype_props"
  shows "EncryptionService_getChainId network = JNum 31337"
    and "EncryptionService_getNetworkUrl network = JStr ''http://127.0.0.1:8545''"
  using assms
  by (simp_all add: EncryptionService_getChainId_def EncryptionService_getNetworkUrl_def
      js_member_def js_or_def)

lemma network_absent_is_localhost:
  "getNetwork (new_FhevmClient (config\<lparr>cfg_network := None\<rparr>)) = ''localhost''"
  by (simp add: getNetwork_def new_FhevmClient_def)

text \<open>
  C8. Network resolution is meant to be total with a localhost fallback: every network
  string outside localhost, sepolia and mainnet should resolve to chain id 31337 and to
  http://127.0.0.1:8545. The tables are object literals read with \<open>table[network] || default\<close>,
  so a network named like an inherited property, here \<open>toString\<close>, finds that inherited
  member, which is truthy: neither the chain id nor the RPC URL is the localhost value,
  and the configuration handed to the backend carries the inherited member.
\<close>

theorem getChainId_inherited_property:
  "EncryptionService_getChainId ''toString'' = JInherited ''toString'' \<and>
   EncryptionService_getNetworkUrl ''toString'' = JInherited ''toString'' \<and>
   ic_chainId (EncryptionService_config
      (new_FhevmClient (plain_config\<lparr>cfg_network := Some ''toString''\<rparr>))) \<noteq> JNum 31337"
  by (simp add: EncryptionService_getChainId_def EncryptionService_getNetworkUrl_def
      js_member_def js_or_def object_prototype_props_def EncryptionService_config_def
      new_FhevmClient_def plain_config_def getNetwork_def Let_def)

text \<open>
  C10. The network tables of the encryption service and of the decryption service
  agree: on every network string the two \<open>getChainId\<close> return the same chain id and the
  two \<open>getNetworkUrl\<close> the same RPC URL, so the backend configuration built by
  \<open>EncryptionService.initialize\<close> and the one built by \<open>DecryptionService.userDecrypt\<close> on
  the same client are equal.
\<close>

theorem network_tables_agree:
  "DecryptionService_getChainId network = EncryptionService_getChainId network \<and>
   DecryptionService_getNetworkUrl network = EncryptionService_getNetworkUrl network \<and>
   DecryptionService_config c = EncryptionService_config c"
  by (simp add: DecryptionService_getChainId_def EncryptionService_getChainId_def
      DecryptionService_getNetworkUrl_def EncryptionService_getNetworkUrl_def
      DecryptionService_config_def EncryptionService_config_def Let_def)

section \<open>Reading the client state\<close>


lemma ready_client_plain:
  "ready_client config =
     (new_FhevmClient config)
       \<lparr>encryption := \<lparr> enc_instance = Obj (Instance 7), enc_initialized = True \<rparr>,
        decryption := \<lparr> dec_initialized = True \<rparr>, c_isInitialized := True\<rparr>"
  by (simp add: ready_client_def FhevmClient_initialize_def EncryptionService_initialize_def
      new_FhevmClient_def plain_backend_def Let_def DecryptionService_initialize_def)











section \<open>Sequential lifecycle\<close>

lemma initialize_success_flag:
  "FhevmClient_initialize be c = (Inr u, c1, tr) \<Longrightarrow> c_isInitialized c1"
  by (auto simp: FhevmClient_initialize_def split: if_splits prod.splits sum.splits)

lemma initialize_plain:
  "FhevmClient_initialize plain_backend (new_FhevmClient plain_config) =
     (Inr (), ready_client plain_config,
      [EvImport, EvCreateInstance (EncryptionService_config (new_FhevmClient plain_config))])"
  by (simp add: ready_client_def FhevmClient_initialize_def EncryptionService_initialize_def
      new_FhevmClient_def plain_backend_def Let_def DecryptionService_initialize_def)

text \<open>
  C7. Two calls of \<open>initialize\<close> in sequence on a new client, the first of which
  succeeds: the first call constructs the backend exactly once, the second call
  succeeds, makes no external call and returns the client unchanged, so there is
  exactly one construction over both calls.
\<close>

theorem initialize_twice_sequentially:
  assumes "FhevmClient_initialize be (new_FhevmClient config) = (Inr u, c1, tr1)"
  shows "constructions tr1 = 1 \<and> FhevmClient_initialize be c1 = (Inr (), c1, []) \<and>
         constructions (tr1 @ snd (snd (FhevmClient_initialize be c1))) = 1"
proof -
  have flag: "c_isInitialized c1"
    using assms by (rule initialize_success_flag)
  have second: "FhevmClient_initialize be c1 = (Inr (), c1, [])"
    using flag by (simp add: FhevmClient_initialize_def)
  have "tr1 = [EvImport, EvCreateInstance (EncryptionService_config (new_FhevmClient config))]"
    using assms
    by (auto simp: FhevmClient_initialize_def new_FhevmClient_def
        EncryptionService_initialize_def Let_def
        split: if_splits prod.splits sum.splits option.splits)
  then have once: "constructions tr1 = 1"
    by (simp add: constructions_def)
  from once second show ?thesis by simp
qed

theorem initialize_twice_sequentially_witness:
  "FhevmClient_initialize plain_backend (new_FhevmClient plain_config) =
     (Inr (), ready_client plain_config,
      [EvImport, EvCreateInstance (EncryptionService_config (new_FhevmClient plain_config))]) \<and>
   FhevmClient_initialize plain_backend (ready_client plain_config) =
     (Inr (), ready_client plain_config, [])"
  using initialize_twice_sequentially [OF initialize_plain] initialize_plain by simp


text \<open>
  C3, as stated: once \<open>dispose\<close> has been called, no operation makes the client usable
  again. The source has no disposed state: \<open>dispose\<close> clears the flags, and the guards of
  \<open>initialize\<close> then let it run again. A ready client that is disposed and initialized
  again reports \<open>isInitialized\<close> and \<open>hasKeys\<close>.
\<close>

theorem dispose_not_terminal_counterexample:
  "fst (FhevmClient_initialize plain_backend (FhevmClient_dispose (ready_client plain_config)))
     = Inr () \<and>
   getState (fst (snd (FhevmClient_initialize plain_backend
      (FhevmClient_dispose (ready_client plain_config)))))
     = \<lparr> st_isInitialized = True, st_network = ''localhost'', st_userAddress = None,
         st_hasKeys = True \<rparr>"
  by (simp add: ready_client_plain FhevmClient_dispose_def EncryptionService_dispose_def
      DecryptionService_dispose_def FhevmClient_initialize_def EncryptionService_initialize_def
      new_FhevmClient_def plain_backend_def plain_config_def Let_def
      DecryptionService_initialize_def getState_def hasKeys_def)


text \<open>
  C3, amended. \<open>dispose\<close> puts the client back into its uninitialized condition:
  \<open>getState\<close> reports false and false, the backend handle is null, the decryption
  service is not initialized, and a second \<open>dispose\<close> changes nothing. A later
  \<open>initialize\<close> whose import and backend construction succeed constructs a new backend
  and makes the same client ready again.
\<close>

theorem dispose_resets_client:
  assumes "fhevmjs_import be = None"
    and "fhevmjs_createInstance be (EncryptionService_config c) = Inr i"
  shows "getState (FhevmClient_dispose c) =
           \<lparr> st_isInitialized = False, st_network = c_network c, st_userAddress = None,
             st_hasKeys = False \<rparr> \<and>
         enc_instance (encryption (FhevmClient_dispose c)) = Null \<and>
         \<not> dec_initialized (decryption (FhevmClient_dispose c)) \<and>
         FhevmClient_dispose (FhevmClient_dispose c) = FhevmClient_dispose c \<and>
         FhevmClient_initialize be (FhevmClient_dispose c) =
           (Inr (),
            c\<lparr>encryption := \<lparr> enc_instance = Obj i, enc_initialized = True \<rparr>,
              decryption := (decryption c)\<lparr>dec_initialized := True\<rparr>,
              c_isInitialized := True\<rparr>,
            [EvImport, EvCreateInstance (EncryptionService_config c)]) \<and>
         st_isInitialized (getState (fst (snd (FhevmClient_initialize be (FhevmClient_dispose c))))) \<and>
         st_hasKeys (getState (fst (snd (FhevmClient_initialize be (FhevmClient_dispose c)))))"
proof -
  have cfg: "EncryptionService_config (FhevmClient_dispose c) = EncryptionService_config c"
    by (simp add: EncryptionService_config_def FhevmClient_dispose_def getNetwork_def
        getGatewayUrl_def getAclAddress_def)
  have st: "getState (FhevmClient_dispose c) =
           \<lparr> st_isInitialized = False, st_network = c_network c, st_userAddress = None,
             st_hasKeys = False \<rparr>"
    by (simp add: getState_def FhevmClient_dispose_def EncryptionService_dispose_def
        hasKeys_def split: option.splits)
  have flds: "enc_instance (encryption (FhevmClient_dispose c)) = Null \<and>
         \<not> dec_initialized (decryption (FhevmClient_dispose c)) \<and>
         FhevmClient_dispose (FhevmClient_dispose c) = FhevmClient_dispose c"
    by (simp add: FhevmClient_dispose_def EncryptionService_dispose_def
        DecryptionService_dispose_def)
  have init: "FhevmClient_initialize be (FhevmClient_dispose c) =
           (Inr (),
            c\<lparr>encryption := \<lparr> enc_instance = Obj i, enc_initialized = True \<rparr>,
              decryption := (decryption c)\<lparr>dec_initialized := True\<rparr>,
              c_isInitialized := True\<rparr>,
            [EvImport, EvCreateInstance (EncryptionService_config c)])"
    using assms cfg
    by (simp add: FhevmClient_initialize_def EncryptionService_initialize_def Let_def
        FhevmClient_dispose_def EncryptionService_dispose_def DecryptionService_dispose_def
        DecryptionService_initialize_def)
  have after: "st_isInitialized (getState (fst (snd (FhevmClient_initialize be (FhevmClient_dispose c))))) \<and>
         st_hasKeys (getState (fst (snd (FhevmClient_initialize be (FhevmClient_dispose c)))))"
    by (simp add: init getState_def hasKeys_def)
  from st flds init after show ?thesis by simp
qed

theorem dispose_resets_client_witness:
  "fhevmjs_import plain_backend = None \<and>
   fhevmjs_createInstance plain_backend (EncryptionService_config (ready_client plain_config))
     = Inr (Instance 7) \<and>
   st_hasKeys (getState (ready_client plain_config)) \<and>
   \<not> st_hasKeys (getState (FhevmClient_dispose (ready_client plain_config))) \<and>
   st_hasKeys (getState (fst (snd (FhevmClient_initialize plain_backend
      (FhevmClient_dispose (ready_client plain_config))))))"
proof -
  have a: "fhevmjs_import plain_backend = None"
    by (simp add: plain_backend_def)
  have b: "fhevmjs_createInstance plain_backend
      (EncryptionService_config (ready_client plain_config)) = Inr (Instance 7)"
    by (simp add: plain_backend_def)
  have c: "st_hasKeys (getState (ready_client plain_config))"
    by (simp add: ready_client_plain getState_def hasKeys_def)
  note reset = dispose_resets_client [OF a b]
  from reset have d: "getState (FhevmClient_dispose (ready_client plain_config)) =
      \<lparr> st_isInitialized = False, st_network = c_network (ready_client plain_config),
        st_userAddress = None, st_hasKeys = False \<rparr>"
    by blast
  have e: "\<not> st_hasKeys (getState (FhevmClient_dispose (ready_client plain_config)))"
    by (simp add: d)
  from reset have f: "st_hasKeys (getState (fst (snd (FhevmClient_initialize plain_backend
      (FhevmClient_dispose (ready_client plain_config))))))"
    by blast
  from a b c e f show ?thesis by blast
qed


section \<open>Typed encryption\<close>

lemma encrypt_single_delegates:
  assumes "enc_initialized e" and "enc_instance e = Obj i"
  shows "encrypt_single be e k v options =
        (let ca = resolve_contract (opt_contract options); ua = opt_userAddress options;
             opened = \<lparr> in_contract = ca, in_user = ua, in_values = [] \<rparr>;
             sealed = \<lparr> in_contract = ca, in_user = ua, in_values = [(k, v)] \<rparr>
         in case instance_createEncryptedInput be i ca ua of
              Some err \<Rightarrow> (Inl err, [EvCreateEncryptedInput i ca ua])
            | None \<Rightarrow>
               (case input_add be k v opened of
                  Some err \<Rightarrow> (Inl err, [EvCreateEncryptedInput i ca ua, EvAdd k v])
                | None \<Rightarrow>
                   (input_encrypt be sealed,
                    [EvCreateEncryptedInput i ca ua, EvAdd k v, EvEncrypt sealed])))"
  using assms
  by (auto simp: encrypt_single_def EncryptionService_createEncryptedInput_def Let_def
      split: option.splits)

lemma encrypt_single_not_initialized:
  assumes "\<not> enc_initialized e \<or> enc_instance e = Undefined \<or> enc_instance e = Null"
  shows "encrypt_single be e k v options =
           (Inl (Error ''Encryption service not initialized''), [])"
  using assms
  by (cases "enc_instance e")
    (auto simp: encrypt_single_def EncryptionService_createEncryptedInput_def Let_def
      split: bool.splits)

text \<open>
  C2, as stated: \<open>encryptU32\<close> rejects a negative value and a value of at least \<open>2^32\<close>
  before the backend is invoked. The source has no range check in any typed encrypt
  method. With a backend that accepts what it is given, \<open>encryptU32\<close> of \<open>-1\<close> and of
  \<open>2^32\<close> on a ready client opens a session, adds the value and returns the sealed
  input.
\<close>

theorem encryptU32_out_of_range_counterexample:
  "encryptU32 plain_backend (encryption (ready_client plain_config)) (- 1) plain_options =
     (Inr \<lparr> handles = [''0xhandle''], inputProof = ''0xproof'' \<rparr>,
      [EvCreateEncryptedInput (Instance 7) ''0xC'' ''0xU'', EvAdd Add32 (PNum (- 1)),
       EvEncrypt \<lparr> in_contract = ''0xC'', in_user = ''0xU'',
                   in_values = [(Add32, PNum (- 1))] \<rparr>]) \<and>
   encryptU32 plain_backend (encryption (ready_client plain_config)) (2 ^ 32) plain_options =
     (Inr \<lparr> handles = [''0xhandle''], inputProof = ''0xproof'' \<rparr>,
      [EvCreateEncryptedInput (Instance 7) ''0xC'' ''0xU'', EvAdd Add32 (PNum (2 ^ 32)),
       EvEncrypt \<lparr> in_contract = ''0xC'', in_user = ''0xU'',
                   in_values = [(Add32, PNum (2 ^ 32))] \<rparr>])"
  by (simp add: encryptU32_def encrypt_single_def EncryptionService_createEncryptedInput_def
      ready_client_plain plain_backend_def plain_options_def resolve_contract_def Let_def)


text \<open>
  C2, amended. \<open>encryptU32\<close> does not look at the value. On an initialized service
  with a backend handle it invokes the backend for every value: it opens a session,
  hands the value unchanged to \<open>add32\<close> and seals the session, and it fails exactly when
  one of these backend calls fails. The only rejection made before the backend is
  invoked is that of a service that is not initialized.
\<close>

theorem encryptU32_delegates_to_backend:
  "(enc_initialized e \<and> enc_instance e = Obj i \<longrightarrow>
      snd (encryptU32 be e v options) \<noteq> [] \<and>
      encryptU32 be e v options =
        (let ca = resolve_contract (opt_contract options); ua = opt_userAddress options;
             opened = \<lparr> in_contract = ca, in_user = ua, in_values = [] \<rparr>;
             sealed = \<lparr> in_contract = ca, in_user = ua, in_values = [(Add32, PNum v)] \<rparr>
         in case instance_createEncryptedInput be i ca ua of
              Some err \<Rightarrow> (Inl err, [EvCreateEncryptedInput i ca ua])
            | None \<Rightarrow>
               (case input_add be Add32 (PNum v) opened of
                  Some err \<Rightarrow> (Inl err, [EvCreateEncryptedInput i ca ua, EvAdd Add32 (PNum v)])
                | None \<Rightarrow>
                   (input_encrypt be sealed,
                    [EvCreateEncryptedInput i ca ua, EvAdd Add32 (PNum v), EvEncrypt sealed])))) \<and>
   (\<not> enc_initialized e \<or> enc_instance e = Undefined \<or> enc_instance e = Null \<longrightarrow>
      encryptU32 be e v options = (Inl (Error ''Encryption service not initialized''), []))"
proof (intro conjI impI)
  assume ready: "enc_initialized e \<and> enc_instance e = Obj i"
  then have eq: "encryptU32 be e v options =
        (let ca = resolve_contract (opt_contract options); ua = opt_userAddress options;
             opened = \<lparr> in_contract = ca, in_user = ua, in_values = [] \<rparr>;
             sealed = \<lparr> in_contract = ca, in_user = ua, in_values = [(Add32, PNum v)] \<rparr>
         in case instance_createEncryptedInput be i ca ua of
              Some err \<Rightarrow> (Inl err, [EvCreateEncryptedInput i ca ua])
            | None \<Rightarrow>
               (case input_add be Add32 (PNum v) opened of
                  Some err \<Rightarrow> (Inl err, [EvCreateEncryptedInput i ca ua, EvAdd Add32 (PNum v)])
                | None \<Rightarrow>
                   (input_encrypt be sealed,
                    [EvCreateEncryptedInput i ca ua, EvAdd Add32 (PNum v), EvEncrypt sealed])))"
    unfolding encryptU32_def by (simp only: encrypt_single_delegates)
  then show "encryptU32 be e v options =
        (let ca = resolve_contract (opt_contract options); ua = opt_userAddress options;
             opened = \<lparr> in_contract = ca, in_user = ua, in_values = [] \<rparr>;
             sealed = \<lparr> in_contract = ca, in_user = ua, in_values = [(Add32, PNum v)] \<rparr>
         in case instance_createEncryptedInput be i ca ua of
              Some err \<Rightarrow> (Inl err, [EvCreateEncryptedInput i ca ua])
            | None \<Rightarrow>
               (case input_add be Add32 (PNum v) opened of
                  Some err \<Rightarrow> (Inl err, [EvCreateEncryptedInput i ca ua, EvAdd Add32 (PNum v)])
                | None \<Rightarrow>
                   (input_encrypt be sealed,
                    [EvCreateEncryptedInput i ca ua, EvAdd Add32 (PNum v), EvEncrypt sealed])))" .
  show "snd (encryptU32 be e v options) \<noteq> []"
    unfolding eq by (simp add: Let_def split: option.splits)
next
  assume "\<not> enc_initialized e \<or> enc_instance e = Undefined \<or> enc_instance e = Null"
  then show "encryptU32 be e v options = (Inl (Error ''Encryption service not initialized''), [])"
    unfolding encryptU32_def by (rule encrypt_single_not_initialized)
qed

theorem encryptU32_delegates_to_backend_witness:
  "enc_initialized (encryption (ready_client plain_config)) \<and>
   enc_instance (encryption (ready_client plain_config)) = Obj (Instance 7) \<and>
   encryptU32 plain_backend (encryption (ready_client plain_config)) 500 plain_options =
     (Inr \<lparr> handles = [''0xhandle''], inputProof = ''0xproof'' \<rparr>,
      [EvCreateEncryptedInput (Instance 7) ''0xC'' ''0xU'', EvAdd Add32 (PNum 500),
       EvEncrypt \<lparr> in_contract = ''0xC'', in_user = ''0xU'',
                   in_values = [(Add32, PNum 500)] \<rparr>]) \<and>
   enc_instance (encryption (new_FhevmClient plain_config)) = Undefined \<and>
   encryptU32 plain_backend (encryption (new_FhevmClient plain_config)) 500 plain_options =
     (Inl (Error ''Encryption service not initialized''), [])"
proof -
  have ready: "enc_initialized (encryption (ready_client plain_config)) \<and>
      enc_instance (encryption (ready_client plain_config)) = Obj (Instance 7)"
    by (simp add: ready_client_plain)
  have fresh: "enc_instance (encryption (new_FhevmClient plain_config)) = Undefined"
    by (simp add: new_FhevmClient_def)
  from encryptU32_delegates_to_backend
    [of "encryption (ready_client plain_config)" "Instance 7" plain_backend 500 plain_options]
    ready
  have a: "encryptU32 plain_backend (encryption (ready_client plain_config)) 500 plain_options =
     (Inr \<lparr> handles = [''0xhandle''], inputProof = ''0xproof'' \<rparr>,
      [EvCreateEncryptedInput (Instance 7) ''0xC'' ''0xU'', EvAdd Add32 (PNum 500),
       EvEncrypt \<lparr> in_contract = ''0xC'', in_user = ''0xU'',
                   in_values = [(Add32, PNum 500)] \<rparr>])"
    by (simp add: plain_backend_def plain_options_def resolve_contract_def Let_def)
  from encryptU32_delegates_to_backend
    [of "encryption (new_FhevmClient plain_config)" "Instance 7" plain_backend 500 plain_options]
    fresh
  have b: "encryptU32 plain_backend (encryption (new_FhevmClient plain_config)) 500
      plain_options = (Inl (Error ''Encryption service not initialized''), [])"
    by blast
  from ready fresh a b show ?thesis by blast
qed

section \<open>User decryption\<close>

text \<open>
  C6, as stated: on a client without a signer \<open>userDecrypt\<close> rejects with the
  signer-required error. The guard for an uninitialized decryption service comes first
  in the source: on a new client without a signer the rejection is
  \<open>Decryption service not initialized\<close>.
\<close>

theorem userDecrypt_uninitialized_counterexample:
  "getSigner (new_FhevmClient plain_config) = None \<and>
   userDecrypt plain_backend (new_FhevmClient plain_config) 0 (request_of 5) =
     (Inl (Error ''Decryption service not initialized''), []) \<and>
   fst (userDecrypt plain_backend (new_FhevmClient plain_config) 0 (request_of 5)) \<noteq>
     Inl (Error ''Signer required for user decryption'')"
  by (simp add: userDecrypt_def new_FhevmClient_def plain_config_def getSigner_def)


text \<open>
  C6, amended. On a client without a signer \<open>userDecrypt\<close> rejects every request
  before any external call (no import, no backend construction, no signature request,
  no gateway call): with \<open>Signer required for user decryption\<close> when the decryption
  service is initialized, with \<open>Decryption service not initialized\<close> when it is not.
\<close>

theorem userDecrypt_without_signer:
  assumes "getSigner c = None"
  shows "userDecrypt be c now request =
           (if dec_initialized (decryption c)
            then Inl (Error ''Signer required for user decryption'')
            else Inl (Error ''Decryption service not initialized''), [])"
  using assms by (simp add: userDecrypt_def)

theorem userDecrypt_without_signer_witness:
  "getSigner (ready_client plain_config) = None \<and>
   userDecrypt plain_backend (ready_client plain_config) 0 (request_of 5) =
     (Inl (Error ''Signer required for user decryption''), [])"
proof -
  have a: "getSigner (ready_client plain_config) = None"
    by (simp add: ready_client_plain getSigner_def new_FhevmClient_def plain_config_def)
  have b: "dec_initialized (decryption (ready_client plain_config))"
    by (simp add: ready_client_plain)
  from userDecrypt_without_signer [OF a, of plain_backend 0 "request_of 5"] a b
  show ?thesis by simp
qed


section \<open>Batch decryption\<close>

lemma unfilled_update:
  assumes "i < length vals" and "vals ! i = None"
  shows "{j. j < length vals \<and> vals[i := Some v] ! j = None} =
         {j. j < length vals \<and> vals ! j = None} - {i}"
  using assms by (auto simp: nth_list_update)

lemma unfilled_card_update:
  assumes "i < length vals" and "vals ! i = None"
  shows "card {j. j < length vals \<and> vals[i := Some v] ! j = None} =
         card {j. j < length vals \<and> vals ! j = None} - 1"
proof -
  have "i \<in> {j. j < length vals \<and> vals ! j = None}"
    using assms by simp
  then show ?thesis
    unfolding unfilled_update [OF assms] by simp
qed

lemma unfilled_replicate:
  "card {j. j < length (replicate n (None :: 'a option)) \<and>
      replicate n (None :: 'a option) ! j = None} = n"
proof -
  have "{j. j < length (replicate n (None :: 'a option)) \<and>
      replicate n (None :: 'a option) ! j = None} = {..<n}"
    by auto
  then show ?thesis by simp
qed

lemma settle_all_fulfilled:
  assumes "settle_all outs order vals remaining = Some (Inr rs)"
    and "length vals = length outs"
    and "\<forall>j<length outs. \<forall>w. vals ! j = Some w \<longrightarrow> outs ! j = Inr w"
    and "remaining = card {j. j < length vals \<and> vals ! j = None}"
  shows "length rs = length outs \<and> (\<forall>j<length outs. outs ! j = Inr (rs ! j))"
  using assms
proof (induction order arbitrary: vals remaining)
  case Nil
  then show ?case by simp
next
  case (Cons i order)
  show ?case
  proof (cases "i < length outs \<and> vals ! i = None")
    case False
    with Cons.prems have "settle_all outs order vals remaining = Some (Inr rs)"
      by auto
    from Cons.IH [OF this Cons.prems(2) Cons.prems(3) Cons.prems(4)] show ?thesis .
  next
    case True
    then have i: "i < length vals" "vals ! i = None"
      using Cons.prems(2) by simp_all
    obtain v where v: "outs ! i = Inr v"
      using Cons.prems(1) True by (cases "outs ! i") auto
    let ?vals = "vals[i := Some v]"
    have len: "length ?vals = length outs"
      using Cons.prems(2) by simp
    have stored: "\<forall>j<length outs. \<forall>w. ?vals ! j = Some w \<longrightarrow> outs ! j = Inr w"
      using Cons.prems(2,3) v i by (auto simp: nth_list_update)
    have cnt: "remaining - 1 = card {j. j < length ?vals \<and> ?vals ! j = None}"
      using unfilled_card_update [OF i] Cons.prems(4) by simp
    show ?thesis
    proof (cases "remaining - 1 = 0")
      case False
      with Cons.prems(1) True v
      have "settle_all outs order ?vals (remaining - 1) = Some (Inr rs)"
        by simp
      from Cons.IH [OF this len stored cnt] show ?thesis .
    next
      case zero: True
      with Cons.prems(1) True v have rs: "rs = map the ?vals"
        by simp
      have "finite {j. j < length ?vals \<and> ?vals ! j = None}"
        by simp
      with cnt zero have none: "{j. j < length ?vals \<and> ?vals ! j = None} = {}"
        by simp
      have "\<forall>j<length outs. outs ! j = Inr (rs ! j)"
      proof (intro allI impI)
        fix j assume j: "j < length outs"
        with none len have "?vals ! j \<noteq> None" by auto
        then obtain w where w: "?vals ! j = Some w" by auto
        with stored j have "outs ! j = Inr w" by blast
        moreover have "rs ! j = w"
          using rs j len w by simp
        ultimately show "outs ! j = Inr (rs ! j)" by simp
      qed
      then show ?thesis using rs len by simp
    qed
  qed
qed

lemma Promise_all_fulfilled:
  assumes "Promise_all outs order = Some (Inr rs)"
  shows "length rs = length outs \<and> (\<forall>j<length outs. outs ! j = Inr (rs ! j))"
proof (cases "outs = []")
  case True
  with assms show ?thesis by (simp add: Promise_all_def)
next
  case False
  with assms have run: "settle_all outs order (replicate (length outs) None) (length outs)
      = Some (Inr rs)"
    by (simp add: Promise_all_def)
  have "length outs = card {j. j < length (replicate (length outs) (None :: 'a option)) \<and>
      replicate (length outs) (None :: 'a option) ! j = None}"
    by (simp only: unfilled_replicate)
  from settle_all_fulfilled [OF run _ _ this] show ?thesis by simp
qed

lemma settle_all_rejected:
  assumes "k \<in> set order" and "k < length outs" and "outs ! k = Inl e"
    and "length vals = length outs"
    and "\<forall>j<length outs. \<forall>w. vals ! j = Some w \<longrightarrow> outs ! j = Inr w"
    and "remaining = card {j. j < length vals \<and> vals ! j = None}"
  shows "\<exists>e'. settle_all outs order vals remaining = Some (Inl e')"
  using assms
proof (induction order arbitrary: vals remaining)
  case Nil
  then show ?case by simp
next
  case (Cons i order)
  have k_none: "vals ! k = None"
  proof (cases "vals ! k")
    case (Some w)
    with Cons.prems(2,5) have "outs ! k = Inr w" by blast
    with Cons.prems(3) show ?thesis by simp
  qed simp
  show ?case
  proof (cases "i < length outs \<and> vals ! i = None")
    case False
    with k_none Cons.prems(2) have "i \<noteq> k" by auto
    with Cons.prems(1) have "k \<in> set order" by simp
    from Cons.IH [OF this Cons.prems(2) Cons.prems(3) Cons.prems(4) Cons.prems(5) Cons.prems(6)]
    show ?thesis using False by auto
  next
    case True
    then have i: "i < length vals" "vals ! i = None"
      using Cons.prems(4) by simp_all
    show ?thesis
    proof (cases "outs ! i")
      case (Inl e')
      with True show ?thesis by simp
    next
      case (Inr v)
      with Cons.prems(3) have ik: "i \<noteq> k" by auto
      with Cons.prems(1) have k_in: "k \<in> set order" by simp
      let ?vals = "vals[i := Some v]"
      have len: "length ?vals = length outs"
        using Cons.prems(4) by simp
      have stored: "\<forall>j<length outs. \<forall>w. ?vals ! j = Some w \<longrightarrow> outs ! j = Inr w"
        using Cons.prems(4,5) Inr i by (auto simp: nth_list_update)
      have cnt: "remaining - 1 = card {j. j < length ?vals \<and> ?vals ! j = None}"
        using unfilled_card_update [OF i] Cons.prems(6) by simp
      have "k \<in> {j. j < length ?vals \<and> ?vals ! j = None}"
        using k_none ik Cons.prems(2) len by simp
      moreover have "finite {j. j < length ?vals \<and> ?vals ! j = None}"
        by simp
      ultimately have "card {j. j < length ?vals \<and> ?vals ! j = None} \<noteq> 0"
        by (metis card_0_eq empty_iff)
      with cnt have nz: "remaining - 1 \<noteq> 0" by simp
      from Cons.IH [OF k_in Cons.prems(2) Cons.prems(3) len stored cnt]
      show ?thesis using True Inr nz by simp
    qed
  qed
qed

lemma Promise_all_rejected:
  assumes "k \<in> set order" and "k < length outs" and "outs ! k = Inl e"
  shows "\<exists>e'. Promise_all outs order = Some (Inl e')"
proof -
  have ne: "outs \<noteq> []" using assms(2) by auto
  have "length outs = card {j. j < length (replicate (length outs) (None :: 'a option)) \<and>
      replicate (length outs) (None :: 'a option) ! j = None}"
    by (simp only: unfilled_replicate)
  from settle_all_rejected [OF assms _ _ this] ne show ?thesis
    by (simp add: Promise_all_def)
qed


text \<open>Once every input has settled, the combined promise has settled.\<close>

lemma settle_all_settles:
  assumes "\<forall>j<length outs. vals ! j = None \<longrightarrow> j \<in> set order"
    and "length vals = length outs"
    and "remaining = card {j. j < length vals \<and> vals ! j = None}"
    and "0 < remaining"
  shows "settle_all outs order vals remaining \<noteq> None"
  using assms
proof (induction order arbitrary: vals remaining)
  case Nil
  then have "{j. j < length vals \<and> vals ! j = None} = {}"
    by auto
  with Nil.prems(3,4) show ?case by simp
next
  case (Cons i order)
  show ?case
  proof (cases "i < length outs \<and> vals ! i = None")
    case False
    have "\<forall>j<length outs. vals ! j = None \<longrightarrow> j \<in> set order"
    proof (intro allI impI)
      fix j assume j: "j < length outs" "vals ! j = None"
      with Cons.prems(1) have "j \<in> set (i # order)" by blast
      moreover from j False have "j \<noteq> i" by auto
      ultimately show "j \<in> set order" by simp
    qed
    moreover from False
    have "settle_all outs (i # order) vals remaining = settle_all outs order vals remaining"
      by (simp only: settle_all.simps if_not_P if_False)
    ultimately show ?thesis
      using Cons.IH [OF _ Cons.prems(2,3,4)] by simp
  next
    case True
    then have i: "i < length vals" "vals ! i = None"
      using Cons.prems(2) by simp_all
    show ?thesis
    proof (cases "outs ! i")
      case (Inl e)
      with True show ?thesis by simp
    next
      case (Inr v)
      show ?thesis
      proof (cases "remaining - 1 = 0")
        case True
        with \<open>i < length outs \<and> vals ! i = None\<close> Inr show ?thesis by simp
      next
        case False
        let ?vals = "vals[i := Some v]"
        have cover: "\<forall>j<length outs. ?vals ! j = None \<longrightarrow> j \<in> set order"
        proof (intro allI impI)
          fix j assume j: "j < length outs" "?vals ! j = None"
          with i Cons.prems(2) have ji: "j \<noteq> i" by auto
          with j have "vals ! j = None" by simp
          with Cons.prems(1) j(1) have "j \<in> set (i # order)" by blast
          with ji show "j \<in> set order" by simp
        qed
        have len: "length ?vals = length outs"
          using Cons.prems(2) by simp
        have cnt: "remaining - 1 = card {j. j < length ?vals \<and> ?vals ! j = None}"
          using unfilled_card_update [OF i] Cons.prems(3) by simp
        from False have pos: "0 < remaining - 1" by simp
        from Cons.IH [OF cover len cnt pos] True Inr False show ?thesis by simp
      qed
    qed
  qed
qed

lemma Promise_all_settles:
  assumes "\<forall>j<length outs. j \<in> set order"
  shows "Promise_all outs order \<noteq> None"
proof (cases "outs = []")
  case True
  then show ?thesis by (simp add: Promise_all_def)
next
  case False
  have cnt: "length outs = card {j. j < length (replicate (length outs) (None :: 'a option)) \<and>
      replicate (length outs) (None :: 'a option) ! j = None}"
    by (simp only: unfilled_replicate)
  have "settle_all outs order (replicate (length outs) None) (length outs) \<noteq> None"
  proof (rule settle_all_settles [OF _ _ cnt])
    show "\<forall>j<length outs. replicate (length outs) None ! j = None \<longrightarrow> j \<in> set order"
      using assms by simp
    show "length (replicate (length outs) None) = length outs" by simp
    show "0 < length outs" using False by simp
  qed
  with False show ?thesis by (simp add: Promise_all_def)
qed

lemma batch_outcomes_length:
  "length (batch_outcomes be c clock requests) = length requests"
  by (simp add: batch_outcomes_def)

lemma batch_outcomes_nth:
  "i < length requests \<Longrightarrow>
     batch_outcomes be c clock requests ! i = fst (userDecrypt be c (clock i) (requests ! i))"
  by (simp add: batch_outcomes_def nth_enumerate_eq)

lemma batchUserDecrypt_settles:
  assumes "\<forall>j<length requests. j \<in> set order"
  shows "batchUserDecrypt be c clock order requests \<noteq> None"
  using Promise_all_settles [of "batch_outcomes be c clock requests" order] assms
  by (simp add: batchUserDecrypt_def batch_outcomes_length)

lemma ready_signer: "ready_client signer_config =
     \<lparr> c_provider = Provider 0, c_signer = Some (Signer 1), c_network = ''localhost'',
       c_gatewayUrl = None, c_aclAddress = None, c_isInitialized = True,
       encryption = \<lparr> enc_instance = Obj (Instance 7), enc_initialized = True \<rparr>,
       decryption = \<lparr> dec_initialized = True \<rparr> \<rparr>"
  by (simp add: ready_client_plain new_FhevmClient_def signer_config_def plain_config_def)

lemma userDecrypt_plain:
  "fst (userDecrypt plain_backend (ready_client signer_config) t (request_of h)) =
     (if h < 0 then Inl (Error ''Failed to decrypt value: Error: permission denied'')
      else Inr \<lparr> res_value = h + 1, res_timestamp = t \<rparr>)"
  by (simp add: userDecrypt_def userDecrypt_try_def ready_signer getSigner_def
      plain_backend_def request_of_def Let_def)

lemma batch_two:
  "batchUserDecrypt plain_backend (ready_client signer_config) (\<lambda>i. 100 + i) [1, 0]
     [request_of 10, request_of 20] =
   Some (Inr [\<lparr> res_value = 11, res_timestamp = 100 \<rparr>, \<lparr> res_value = 21, res_timestamp = 101 \<rparr>])"
  by (simp add: batchUserDecrypt_def batch_outcomes_def Promise_all_def userDecrypt_plain
      enumerate_eq_zip)

lemma batch_three:
  "batchUserDecrypt plain_backend (ready_client signer_config) (\<lambda>i. 100 + i) [2, 0, 1]
     [request_of 10, request_of (- 1), request_of 20] =
   Some (Inl (Error ''Failed to decrypt value: Error: permission denied''))"
  by (simp add: batchUserDecrypt_def batch_outcomes_def Promise_all_def userDecrypt_plain
      enumerate_eq_zip)


text \<open>
  C4. \<open>batchUserDecrypt\<close> is all-or-nothing: when the decryption of one request fails,
  then in whatever order the calls complete the batch never returns a list of results,
  and as soon as the failing call has completed the batch is rejected.
\<close>

theorem batchUserDecrypt_all_or_nothing:
  assumes "k < length requests"
    and "fst (userDecrypt be c (clock k) (requests ! k)) = Inl e"
  shows "(\<forall>rs. batchUserDecrypt be c clock order requests \<noteq> Some (Inr rs)) \<and>
         (k \<in> set order \<longrightarrow> (\<exists>e'. batchUserDecrypt be c clock order requests = Some (Inl e')))"
proof -
  let ?outs = "batch_outcomes be c clock requests"
  have k: "k < length ?outs" "?outs ! k = Inl e"
    using assms by (simp_all add: batch_outcomes_length batch_outcomes_nth)
  have "batchUserDecrypt be c clock order requests \<noteq> Some (Inr rs)" for rs
  proof
    assume "batchUserDecrypt be c clock order requests = Some (Inr rs)"
    then have "Promise_all ?outs order = Some (Inr rs)"
      by (simp add: batchUserDecrypt_def)
    from Promise_all_fulfilled [OF this] k show False by auto
  qed
  moreover have "k \<in> set order \<longrightarrow>
      (\<exists>e'. batchUserDecrypt be c clock order requests = Some (Inl e'))"
    using Promise_all_rejected [OF _ k] by (simp add: batchUserDecrypt_def)
  ultimately show ?thesis by blast
qed

theorem batchUserDecrypt_all_or_nothing_witness:
  "(1::nat) < length [request_of 10, request_of (- 1), request_of 20] \<and>
   fst (userDecrypt plain_backend (ready_client signer_config) 101
          ([request_of 10, request_of (- 1), request_of 20] ! 1)) =
     Inl (Error ''Failed to decrypt value: Error: permission denied'') \<and>
   (1::nat) \<in> set [2, 0, 1] \<and>
   batchUserDecrypt plain_backend (ready_client signer_config) (\<lambda>i. 100 + i) [2, 0, 1]
     [request_of 10, request_of (- 1), request_of 20] =
   Some (Inl (Error ''Failed to decrypt value: Error: permission denied''))"
proof -
  have a: "(1::nat) < length [request_of 10, request_of (- 1), request_of 20]"
    by simp
  have b: "fst (userDecrypt plain_backend (ready_client signer_config) (100 + 1)
          ([request_of 10, request_of (- 1), request_of 20] ! 1)) =
     Inl (Error ''Failed to decrypt value: Error: permission denied'')"
    by (simp add: userDecrypt_plain)
  have c: "(1::nat) \<in> set [2, 0, 1]" by simp
  from batchUserDecrypt_all_or_nothing [of 1 _ plain_backend "ready_client signer_config"
      "\<lambda>i. 100 + i", OF a b, of "[2, 0, 1]"] c
  obtain e' where "batchUserDecrypt plain_backend (ready_client signer_config) (\<lambda>i. 100 + i)
      [2, 0, 1] [request_of 10, request_of (- 1), request_of 20] = Some (Inl e')"
    by blast
  with batch_three a b c show ?thesis by simp
qed


text \<open>
  C5. When \<open>batchUserDecrypt\<close> succeeds, in whatever order the calls complete, the list
  it returns is as long as the list of requests and its \<open>i\<close>-th element is the result
  of \<open>userDecrypt\<close> on the \<open>i\<close>-th request.
\<close>

theorem batchUserDecrypt_positional:
  assumes "batchUserDecrypt be c clock order requests = Some (Inr rs)"
  shows "length rs = length requests \<and>
         (\<forall>i<length requests.
            fst (userDecrypt be c (clock i) (requests ! i)) = Inr (rs ! i))"
proof -
  from assms have "Promise_all (batch_outcomes be c clock requests) order = Some (Inr rs)"
    by (simp add: batchUserDecrypt_def)
  from Promise_all_fulfilled [OF this] show ?thesis
    by (simp add: batch_outcomes_length batch_outcomes_nth)
qed

theorem batchUserDecrypt_positional_witness:
  "batchUserDecrypt plain_backend (ready_client signer_config) (\<lambda>i. 100 + i) [1, 0]
     [request_of 10, request_of 20] =
   Some (Inr [\<lparr> res_value = 11, res_timestamp = 100 \<rparr>, \<lparr> res_value = 21, res_timestamp = 101 \<rparr>]) \<and>
   length [\<lparr> res_value = 11, res_timestamp = 100 \<rparr>, \<lparr> res_value = 21, res_timestamp = 101 \<rparr>] =
     length [request_of 10, request_of 20] \<and>
   fst (userDecrypt plain_backend (ready_client signer_config) 100 (request_of 10)) =
     Inr \<lparr> res_value = 11, res_timestamp = 100 \<rparr> \<and>
   fst (userDecrypt plain_backend (ready_client signer_config) 101 (request_of 20)) =
     Inr \<lparr> res_value = 21, res_timestamp = 101 \<rparr>"
proof -
  note positional = batchUserDecrypt_positional [OF batch_two]
  from positional have len:
    "length [\<lparr> res_value = 11, res_timestamp = 100 \<rparr>, \<lparr> res_value = 21, res_timestamp = 101 \<rparr>] =
     length [request_of 10, request_of 20]"
    by blast
  from positional have each: "\<forall>i<length [request_of 10, request_of 20].
          fst (userDecrypt plain_backend (ready_client signer_config) (100 + i)
            ([request_of 10, request_of 20] ! i)) =
          Inr ([\<lparr> res_value = 11, res_timestamp = 100 \<rparr>,
                \<lparr> res_value = 21, res_timestamp = 101 \<rparr>] ! i)"
    by blast
  from each [rule_format, of 0]
  have r0: "fst (userDecrypt plain_backend (ready_client signer_config) 100 (request_of 10)) =
     Inr \<lparr> res_value = 11, res_timestamp = 100 \<rparr>"
    by simp
  from each [rule_format, of 1]
  have r1: "fst (userDecrypt plain_backend (ready_client signer_config) 101 (request_of 20)) =
     Inr \<lparr> res_value = 21, res_timestamp = 101 \<rparr>"
    by simp
  from batch_two len r0 r1 show ?thesis by blast
qed


section \<open>Interleaved initialization\<close>

lemma run_append: "run be (xs @ ys) s = run be ys (run be xs s)"
  by (induction xs arbitrary: s) simp_all

lemma sys_constructions_split:
  "sys_constructions s = constructions (calls_of First s) + constructions (calls_of Second s)"
proof -
  have "constructions (map snd tr) =
      constructions (map snd (filter (\<lambda>p. fst p = First) tr)) +
      constructions (map snd (filter (\<lambda>p. fst p = Second) tr))" for tr :: "(invocation \<times> event) list"
  proof (induction tr)
    case Nil
    then show ?case by (simp add: constructions_def)
  next
    case (Cons p tr)
    then show ?case by (cases "fst p") (simp_all add: constructions_def)
  qed
  from this [of "sys_trace s"] show ?thesis
    by (simp only: sys_constructions_def calls_of_def)
qed


text \<open>A segment of one invocation leaves the control point and the calls of the other alone.\<close>

lemma sys_step_other:
  "u \<noteq> t \<Longrightarrow> pc_of (sys_step be s u) t = pc_of s t \<and> calls_of t (sys_step be s u) = calls_of t s"
  by (cases u; cases t) (auto simp: calls_of_def split: prod.splits)

lemma run_other:
  "t \<notin> set sched \<Longrightarrow> pc_of (run be sched s) t = pc_of s t \<and> calls_of t (run be sched s) = calls_of t s"
proof (induction sched arbitrary: s)
  case Nil
  then show ?case by simp
next
  case (Cons u sched)
  then have "u \<noteq> t" "t \<notin> set sched" by auto
  with Cons.IH [of "sys_step be s u"] sys_step_other [of u t be s] show ?case by simp
qed


text \<open>Past the import, an invocation makes no further external call.\<close>

lemma init_resume_past_import:
  assumes "pc \<noteq> Start" and "pc \<noteq> AwaitImport"
    and "init_resume be pc c = (pc', c', tr)"
  shows "pc' \<noteq> Start \<and> pc' \<noteq> AwaitImport \<and> tr = []"
  using assms by (cases pc) (auto split: sum.splits)

lemma sys_step_past_import:
  assumes "pc_of s t \<noteq> Start" and "pc_of s t \<noteq> AwaitImport"
  shows "pc_of (sys_step be s t) t \<noteq> Start \<and> pc_of (sys_step be s t) t \<noteq> AwaitImport \<and>
         calls_of t (sys_step be s t) = calls_of t s"
proof (cases t)
  case First
  obtain pc' c' tr where r: "init_resume be (sys_first s) (sys_client s) = (pc', c', tr)"
    by (cases "init_resume be (sys_first s) (sys_client s)")
  from init_resume_past_import [OF _ _ r] assms First r show ?thesis
    by (simp add: calls_of_def)
next
  case Second
  obtain pc' c' tr where r: "init_resume be (sys_second s) (sys_client s) = (pc', c', tr)"
    by (cases "init_resume be (sys_second s) (sys_client s)")
  from init_resume_past_import [OF _ _ r] assms Second r show ?thesis
    by (simp add: calls_of_def)
qed

lemma run_past_import:
  assumes "pc_of s t \<noteq> Start" and "pc_of s t \<noteq> AwaitImport"
  shows "calls_of t (run be sched s) = calls_of t s"
  using assms
proof (induction sched arbitrary: s)
  case Nil
  then show ?case by simp
next
  case (Cons u sched)
  show ?case
  proof (cases "u = t")
    case True
    with sys_step_past_import [OF Cons.prems, of be]
      Cons.IH [of "sys_step be s t"] show ?thesis by simp
  next
    case False
    with sys_step_other [of u t be s] Cons.prems Cons.IH [of "sys_step be s u"]
    show ?thesis by simp
  qed
qed


text \<open>An invocation suspended at the import constructs a backend when it is resumed.\<close>

lemma sys_step_at_import:
  assumes "pc_of s t = AwaitImport" and "fhevmjs_import be = None"
  shows "pc_of (sys_step be s t) t \<noteq> Start \<and> pc_of (sys_step be s t) t \<noteq> AwaitImport \<and>
         calls_of t (sys_step be s t) =
           calls_of t s @ [EvCreateInstance (EncryptionService_config (sys_client s))]"
  using assms by (cases t) (simp_all add: calls_of_def Let_def)

lemma run_at_import:
  assumes "pc_of s t = AwaitImport" and "fhevmjs_import be = None" and "t \<in> set sched"
  shows "constructions (calls_of t (run be sched s)) = Suc (constructions (calls_of t s))"
  using assms
proof (induction sched arbitrary: s)
  case Nil
  then show ?case by simp
next
  case (Cons u sched)
  show ?case
  proof (cases "u = t")
    case True
    from sys_step_at_import [OF Cons.prems(1,2)]
    have past: "pc_of (sys_step be s t) t \<noteq> Start" "pc_of (sys_step be s t) t \<noteq> AwaitImport"
      and calls: "calls_of t (sys_step be s t) =
           calls_of t s @ [EvCreateInstance (EncryptionService_config (sys_client s))]"
      by simp_all
    from run_past_import [OF past, of be sched] calls True show ?thesis
      by (simp add: constructions_def)
  next
    case False
    with Cons.prems(3) have "t \<in> set sched" by auto
    with sys_step_other [OF False, of be s] Cons.prems(1,2) Cons.IH [of "sys_step be s u"]
    show ?thesis by simp
  qed
qed


text \<open>The first segment of an invocation looks at the two flags and at nothing else.\<close>

lemma sys_step_start:
  assumes "pc_of s t = Start" and "calls_of t s = []"
  shows "if c_isInitialized (sys_client s) \<or> enc_initialized (encryption (sys_client s))
         then pc_of (sys_step be s t) t \<noteq> Start \<and> pc_of (sys_step be s t) t \<noteq> AwaitImport \<and>
              calls_of t (sys_step be s t) = []
         else pc_of (sys_step be s t) t = AwaitImport \<and>
              calls_of t (sys_step be s t) = [EvImport]"
  using assms by (cases t) (auto simp: calls_of_def)

lemma constructions_by_flags:
  assumes imp: "fhevmjs_import be = None"
    and mid: "Second \<notin> set mid"
    and first_runs: "First \<in> set (mid @ post)"
    and second_runs: "Second \<in> set post"
    and fresh: "\<not> c_isInitialized c" "\<not> enc_initialized (encryption c)"
  shows "sys_constructions (run be (First # mid @ Second # post) (sys_init c)) =
     (if c_isInitialized (sys_client (run be (First # mid) (sys_init c))) \<or>
         enc_initialized (encryption (sys_client (run be (First # mid) (sys_init c))))
      then 1 else 2)"
proof -
  define s1 where "s1 = sys_step be (sys_init c) First"
  define s2 where "s2 = run be mid s1"
  define s3 where "s3 = sys_step be s2 Second"
  define final where "final = run be post s3"
  have final: "run be (First # mid @ Second # post) (sys_init c) = final"
    by (simp add: run_append final_def s3_def s2_def s1_def)
  have before: "run be (First # mid) (sys_init c) = s2"
    by (simp add: s2_def s1_def)
  have s1: "pc_of s1 First = AwaitImport" "calls_of First s1 = [EvImport]"
    "pc_of s1 Second = Start" "calls_of Second s1 = []"
    using fresh by (simp_all add: s1_def sys_init_def calls_of_def)
  have "First \<in> set (mid @ Second # post)"
    using first_runs by auto
  from run_at_import [OF s1(1) imp this]
  have "constructions (calls_of First (run be (mid @ Second # post) s1)) = 1"
    by (simp add: s1(2) constructions_def)
  then have first: "constructions (calls_of First final) = 1"
    by (simp add: run_append final_def s3_def s2_def)
  have s2: "pc_of s2 Second = Start" "calls_of Second s2 = []"
    using run_other [OF mid, of be s1] s1(3,4) by (simp_all add: s2_def)
  note start = sys_step_start [OF s2, of be, folded s3_def]
  show ?thesis
  proof (cases "c_isInitialized (sys_client s2) \<or> enc_initialized (encryption (sys_client s2))")
    case True
    with start have past: "pc_of s3 Second \<noteq> Start" "pc_of s3 Second \<noteq> AwaitImport"
      and calls: "calls_of Second s3 = []"
      by simp_all
    from run_past_import [OF past, of be post] calls
    have "constructions (calls_of Second final) = 0"
      by (simp add: constructions_def final_def)
    with first True show ?thesis
      unfolding final before by (simp add: sys_constructions_split)
  next
    case False
    with start have at: "pc_of s3 Second = AwaitImport"
      and calls: "calls_of Second s3 = [EvImport]"
      by simp_all
    from run_at_import [OF at imp second_runs] calls
    have "constructions (calls_of Second final) = 1"
      by (simp add: constructions_def final_def)
    with first False show ?thesis
      unfolding final before by (simp add: sys_constructions_split)
  qed
qed


text \<open>No segment clears the flag of the encryption service.\<close>

lemma init_resume_keeps_enc:
  assumes "init_resume be pc c = (pc', c', tr)" and "enc_initialized (encryption c)"
  shows "enc_initialized (encryption c')"
  using assms by (cases pc) (auto simp: Let_def split: if_splits option.splits sum.splits)

lemma sys_step_keeps_enc:
  assumes "enc_initialized (encryption (sys_client s))"
  shows "enc_initialized (encryption (sys_client (sys_step be s t)))"
proof (cases t)
  case First
  obtain pc' c' tr where r: "init_resume be (sys_first s) (sys_client s) = (pc', c', tr)"
    by (cases "init_resume be (sys_first s) (sys_client s)")
  from init_resume_keeps_enc [OF r assms] First r show ?thesis by simp
next
  case Second
  obtain pc' c' tr where r: "init_resume be (sys_second s) (sys_client s) = (pc', c', tr)"
    by (cases "init_resume be (sys_second s) (sys_client s)")
  from init_resume_keeps_enc [OF r assms] Second r show ?thesis by simp
qed

lemma run_keeps_enc:
  "enc_initialized (encryption (sys_client s)) \<Longrightarrow>
     enc_initialized (encryption (sys_client (run be sched s)))"
  by (induction sched arbitrary: s) (simp_all add: sys_step_keeps_enc)


text \<open>While the construction fails, the first invocation never touches the client.\<close>

lemma failing_path_step:
  assumes "fhevmjs_createInstance be (EncryptionService_config (sys_client s)) = Inl e0"
    and "sys_first s = AwaitImport \<or> (\<exists>e. sys_first s = AwaitCreateInstance (Inl e)) \<or>
         (\<exists>e. sys_first s = AwaitEncryption (Inl e)) \<or> (\<exists>e. sys_first s = Finished (Inl e))"
  shows "sys_client (sys_step be s First) = sys_client s \<and>
         (sys_first (sys_step be s First) = AwaitImport \<or>
          (\<exists>e. sys_first (sys_step be s First) = AwaitCreateInstance (Inl e)) \<or>
          (\<exists>e. sys_first (sys_step be s First) = AwaitEncryption (Inl e)) \<or>
          (\<exists>e. sys_first (sys_step be s First) = Finished (Inl e)))"
  using assms by (auto simp: Let_def split: option.splits)

lemma failing_path_run:
  assumes "Second \<notin> set mid"
    and "fhevmjs_createInstance be (EncryptionService_config (sys_client s)) = Inl e0"
    and "sys_first s = AwaitImport \<or> (\<exists>e. sys_first s = AwaitCreateInstance (Inl e)) \<or>
         (\<exists>e. sys_first s = AwaitEncryption (Inl e)) \<or> (\<exists>e. sys_first s = Finished (Inl e))"
  shows "sys_client (run be mid s) = sys_client s"
  using assms
proof (induction mid arbitrary: s)
  case Nil
  then show ?case by simp
next
  case (Cons t mid)
  then have t: "t = First" and rest: "Second \<notin> set mid"
    by (cases t; simp)+
  note step = failing_path_step [OF Cons.prems(2,3)]
  from step have same: "sys_client (sys_step be s First) = sys_client s"
    by blast
  have "sys_client (run be mid (sys_step be s First)) = sys_client (sys_step be s First)"
  proof (rule Cons.IH [OF rest])
    show "fhevmjs_createInstance be
        (EncryptionService_config (sys_client (sys_step be s First))) = Inl e0"
      using same Cons.prems(2) by simp
    show "sys_first (sys_step be s First) = AwaitImport \<or>
         (\<exists>e. sys_first (sys_step be s First) = AwaitCreateInstance (Inl e)) \<or>
         (\<exists>e. sys_first (sys_step be s First) = AwaitEncryption (Inl e)) \<or>
         (\<exists>e. sys_first (sys_step be s First) = Finished (Inl e))"
      using step by blast
  qed
  with same t show ?case by simp
qed

lemma flags_after_first:
  assumes imp: "fhevmjs_import be = None"
    and mid: "Second \<notin> set mid"
    and fresh: "\<not> c_isInitialized c" "\<not> enc_initialized (encryption c)"
  shows "(c_isInitialized (sys_client (run be (First # mid) (sys_init c))) \<or>
          enc_initialized (encryption (sys_client (run be (First # mid) (sys_init c))))) \<longleftrightarrow>
         (2 \<le> length mid \<and> \<not> isl (fhevmjs_createInstance be (EncryptionService_config c)))"
proof -
  define s1 where "s1 = sys_step be (sys_init c) First"
  have s1: "sys_first s1 = AwaitImport" "sys_client s1 = c"
    using fresh by (simp_all add: s1_def sys_init_def)
  have run1: "run be (First # mid) (sys_init c) = run be mid s1"
    by (simp add: s1_def)
  show ?thesis
  proof (cases "fhevmjs_createInstance be (EncryptionService_config c)")
    case (Inl e0)
    then have "fhevmjs_createInstance be (EncryptionService_config (sys_client s1)) = Inl e0"
      by (simp add: s1)
    from failing_path_run [OF mid this] s1 have "sys_client (run be mid s1) = c"
      by simp
    with fresh Inl show ?thesis
      unfolding run1 by simp
  next
    case (Inr i)
    show ?thesis
    proof (cases mid)
      case Nil
      with fresh Inr s1 show ?thesis
        unfolding run1 by simp
    next
      case outer: (Cons t rest)
      with mid have t: "t = First" by (cases t) simp_all
      show ?thesis
      proof (cases rest)
        case Nil
        have "sys_client (sys_step be s1 First) = c"
          using s1 imp by (simp add: Let_def)
        with fresh Inr outer Nil t show ?thesis
          unfolding run1 by simp
      next
        case (Cons t' rest')
        with mid outer have t': "t' = First" by (cases t') simp_all
        have "enc_initialized (encryption (sys_client
            (sys_step be (sys_step be s1 First) First)))"
          using s1 imp Inr by (simp add: Let_def)
        from run_keeps_enc [OF this, of be rest']
        have "enc_initialized (encryption (sys_client (run be mid s1)))"
          using outer Cons t t' by simp
        with Inr outer Cons show ?thesis
          unfolding run1 by simp
      qed
    qed
  qed
qed


text \<open>
  Run alone, the five segments of one invocation are \<open>FhevmClient_initialize\<close>.
\<close>

lemma run_alone_is_initialize:
  "run be [First, First, First, First, First] (sys_init c) =
     (case FhevmClient_initialize be c of
        (r, c', tr) \<Rightarrow>
          \<lparr> sys_client = c', sys_first = Finished r, sys_second = Start,
            sys_trace = map (Pair First) tr \<rparr>)"
proof (cases "c_isInitialized c")
  case True
  then show ?thesis
    by (simp add: sys_init_def FhevmClient_initialize_def)
next
  case notinit: False
  show ?thesis
  proof (cases "enc_initialized (encryption c)")
    case True
    with notinit show ?thesis
      by (simp add: sys_init_def FhevmClient_initialize_def EncryptionService_initialize_def)
  next
    case noenc: False
    show ?thesis
    proof (cases "fhevmjs_import be")
      case (Some e)
      with notinit noenc show ?thesis
        by (simp add: sys_init_def FhevmClient_initialize_def EncryptionService_initialize_def)
    next
      case None
      show ?thesis
      proof (cases "fhevmjs_createInstance be (EncryptionService_config c)")
        case (Inl e)
        with notinit noenc None show ?thesis
          by (simp add: sys_init_def FhevmClient_initialize_def
              EncryptionService_initialize_def Let_def)
      next
        case (Inr i)
        with notinit noenc None show ?thesis
          by (simp add: sys_init_def FhevmClient_initialize_def
              EncryptionService_initialize_def Let_def)
      qed
    qed
  qed
qed

text \<open>
  C1, as stated: a second \<open>initialize\<close> invoked while the first is in flight awaits the
  first, and the backend is constructed once. The source guards with two boolean flags
  that are set only after the awaited work. When the second invocation starts while the
  first is suspended at the import, both pass the guards and both construct a backend:
  two constructions, and both invocations succeed.
\<close>

theorem initialize_concurrent_counterexample:
  "sys_first (run plain_backend [First] (sys_init (new_FhevmClient plain_config))) = AwaitImport \<and>
   sys_constructions
     (run plain_backend [First, Second, First, Second, First, Second, First, Second, First, Second]
        (sys_init (new_FhevmClient plain_config))) = 2 \<and>
   sys_first
     (run plain_backend [First, Second, First, Second, First, Second, First, Second, First, Second]
        (sys_init (new_FhevmClient plain_config))) = Finished (Inr ()) \<and>
   sys_second
     (run plain_backend [First, Second, First, Second, First, Second, First, Second, First, Second]
        (sys_init (new_FhevmClient plain_config))) = Finished (Inr ())"
  by code_simp

text \<open>When the import fails, no segment constructs a backend.\<close>

lemma init_resume_import_fails:
  assumes "fhevmjs_import be = Some e" and "init_resume be pc c = (pc', c', tr)"
  shows "filter is_construction tr = []"
  using assms by (cases pc) (auto split: if_splits sum.splits)

lemma sys_step_import_fails:
  assumes "fhevmjs_import be = Some e"
  shows "sys_constructions (sys_step be s t) = sys_constructions s"
proof (cases t)
  case First
  obtain pc' c' tr where r: "init_resume be (sys_first s) (sys_client s) = (pc', c', tr)"
    by (cases "init_resume be (sys_first s) (sys_client s)")
  from init_resume_import_fails [OF assms r] First r show ?thesis
    by (simp add: sys_constructions_def constructions_def filter_map comp_def)
next
  case Second
  obtain pc' c' tr where r: "init_resume be (sys_second s) (sys_client s) = (pc', c', tr)"
    by (cases "init_resume be (sys_second s) (sys_client s)")
  from init_resume_import_fails [OF assms r] Second r show ?thesis
    by (simp add: sys_constructions_def constructions_def filter_map comp_def)
qed

lemma run_import_fails:
  assumes "fhevmjs_import be = Some e"
  shows "sys_constructions (run be sched s) = sys_constructions s"
  by (induction sched arbitrary: s) (simp_all add: sys_step_import_fails [OF assms])


text \<open>
  The second invocation does not wait for the first: started right after the first
  segment of the first invocation and run on its own, it settles within five segments
  while the first invocation is still suspended at the import.
\<close>

lemma second_settles_alone:
  assumes "\<not> c_isInitialized c" and "\<not> enc_initialized (encryption c)"
  shows "sys_first (run be [First, Second, Second, Second, Second, Second] (sys_init c)) =
           AwaitImport \<and>
         (\<exists>r. sys_second (run be [First, Second, Second, Second, Second, Second] (sys_init c)) =
           Finished r)"
proof (cases "fhevmjs_import be")
  case (Some e)
  with assms show ?thesis
    by (simp add: sys_init_def)
next
  case None
  show ?thesis
  proof (cases "fhevmjs_createInstance be (EncryptionService_config c)")
    case (Inl e)
    with assms None show ?thesis
      by (simp add: sys_init_def Let_def)
  next
    case (Inr i)
    with assms None show ?thesis
      by (simp add: sys_init_def Let_def)
  qed
qed


text \<open>
  C1, amended. There is no single-flight guard; what decides is the moment at which the
  second invocation starts. Let the first invocation run one segment and then \<open>mid\<close>
  further segments on a new client before the second invocation starts, and let both
  run on afterwards in any interleaving \<open>post\<close>. When the import fails, no backend is
  constructed. When the import succeeds, the backend is constructed once if the first
  invocation had already stored a successfully constructed backend (at least two
  further segments), and twice otherwise: a second invocation that starts while the
  first is suspended at the import or at \<open>createInstance\<close> constructs a backend of its
  own. The second invocation does not await the first: started after the first
  segment of the first invocation and run on its own, it settles while the first is
  still suspended at the import.
\<close>

theorem initialize_second_invocation_constructs:
  assumes "Second \<notin> set mid"
    and "First \<in> set (mid @ post)"
    and "Second \<in> set post"
  shows "sys_constructions
           (run be (First # mid @ Second # post) (sys_init (new_FhevmClient config))) =
         (case fhevmjs_import be of
            Some e \<Rightarrow> 0
          | None \<Rightarrow>
             if 2 \<le> length mid \<and>
                \<not> isl (fhevmjs_createInstance be
                         (EncryptionService_config (new_FhevmClient config)))
             then 1 else 2) \<and>
         sys_first (run be [First, Second, Second, Second, Second, Second]
                      (sys_init (new_FhevmClient config))) = AwaitImport \<and>
         (\<exists>r. sys_second (run be [First, Second, Second, Second, Second, Second]
                            (sys_init (new_FhevmClient config))) = Finished r)"
proof -
  have fresh: "\<not> c_isInitialized (new_FhevmClient config)"
    "\<not> enc_initialized (encryption (new_FhevmClient config))"
    by (simp_all add: new_FhevmClient_def)
  have count: "sys_constructions
           (run be (First # mid @ Second # post) (sys_init (new_FhevmClient config))) =
         (case fhevmjs_import be of
            Some e \<Rightarrow> 0
          | None \<Rightarrow>
             if 2 \<le> length mid \<and>
                \<not> isl (fhevmjs_createInstance be
                         (EncryptionService_config (new_FhevmClient config)))
             then 1 else 2)"
  proof (cases "fhevmjs_import be")
    case (Some e)
    have "sys_constructions (sys_init (new_FhevmClient config)) = 0"
      by (simp add: sys_constructions_def constructions_def sys_init_def)
    with run_import_fails [OF Some] Some show ?thesis
      by (simp only: option.case)
  next
    case None
    from constructions_by_flags [OF None assms fresh]
      flags_after_first [OF None assms(1) fresh] None
    show ?thesis by simp
  qed
  from count second_settles_alone [OF fresh] show ?thesis by blast
qed

theorem initialize_second_invocation_constructs_witness:
  "Second \<notin> set [] \<and>
   First \<in> set ([] @ [First, First, Second, First, Second, First, Second, Second]) \<and>
   Second \<in> set [First, First, Second, First, Second, First, Second, Second] \<and>
   sys_constructions
     (run plain_backend
        (First # [] @ Second # [First, First, Second, First, Second, First, Second, Second])
        (sys_init (new_FhevmClient plain_config))) = 2 \<and>
   Second \<notin> set [First, First] \<and>
   First \<in> set ([First, First] @ [Second, First, Second, First, Second, Second]) \<and>
   Second \<in> set [Second, First, Second, First, Second, Second] \<and>
   sys_constructions
     (run plain_backend
        (First # [First, First] @ Second # [Second, First, Second, First, Second, Second])
        (sys_init (new_FhevmClient plain_config))) = 1 \<and>
   sys_constructions
     (run (plain_backend\<lparr>fhevmjs_import := Some (Error ''offline'')\<rparr>)
        (First # [] @ Second # [First, First, Second, First, Second, First, Second, Second])
        (sys_init (new_FhevmClient plain_config))) = 0"
proof -
  have a: "fhevmjs_import plain_backend = None"
    by (simp add: plain_backend_def)
  have a': "fhevmjs_import (plain_backend\<lparr>fhevmjs_import := Some (Error ''offline'')\<rparr>) =
      Some (Error ''offline'')"
    by simp
  have b: "Second \<notin> set []" by simp
  have c: "First \<in> set ([] @ [First, First, Second, First, Second, First, Second, Second])"
    by simp
  have d: "Second \<in> set [First, First, Second, First, Second, First, Second, Second]"
    by simp
  have early: "sys_constructions
     (run plain_backend
        (First # [] @ Second # [First, First, Second, First, Second, First, Second, Second])
        (sys_init (new_FhevmClient plain_config))) = 2"
    unfolding initialize_second_invocation_constructs
      [OF b c d, of plain_backend plain_config, THEN conjunct1]
    by (simp only: a option.case list.size if_False not_numeral_le_zero simp_thms)
  have failed: "sys_constructions
     (run (plain_backend\<lparr>fhevmjs_import := Some (Error ''offline'')\<rparr>)
        (First # [] @ Second # [First, First, Second, First, Second, First, Second, Second])
        (sys_init (new_FhevmClient plain_config))) = 0"
    unfolding initialize_second_invocation_constructs
      [OF b c d, of "plain_backend\<lparr>fhevmjs_import := Some (Error ''offline'')\<rparr>" plain_config,
       THEN conjunct1]
    by (simp only: a' option.case)
  have b': "Second \<notin> set [First, First]" by simp
  have c': "First \<in> set ([First, First] @ [Second, First, Second, First, Second, Second])"
    by simp
  have d': "Second \<in> set [Second, First, Second, First, Second, Second]"
    by simp
  have built: "2 \<le> length [First, First] \<and>
      \<not> isl (fhevmjs_createInstance plain_backend
        (EncryptionService_config (new_FhevmClient plain_config)))"
    by (simp add: plain_backend_def)
  have late: "sys_constructions
     (run plain_backend
        (First # [First, First] @ Second # [Second, First, Second, First, Second, Second])
        (sys_init (new_FhevmClient plain_config))) = 1"
    unfolding initialize_second_invocation_constructs
      [OF b' c' d', of plain_backend plain_config, THEN conjunct1]
    using built by (simp only: a option.case if_True simp_thms)
  from b c d early b' c' d' late failed show ?thesis by blast
qed


end
